theory Spec2Isabelle
  imports Main
begin

section \<open>The homepage: \<open>src/app/page.tsx\<close>\<close>

text \<open>
  \<open>Home\<close> awaits Clerk's \<open>auth()\<close>, reads \<open>userId\<close> (typed \<open>string | null\<close>) and runs
  \<open>if (userId) redirect('/dashboard')\<close> before it returns the JSX of the marketing page.
  \<open>redirect\<close> of \<open>next/navigation\<close> throws, so nothing after it runs: the redirect is the
  \<open>Inl\<close> branch of the result. The test \<open>if (userId)\<close> is JavaScript truthiness, which is
  false for \<open>null\<close> and for the empty string.
\<close>

datatype navigation = Redirect string

datatype page = MarketingPage

definition truthy :: "string option \<Rightarrow> bool" where
  "truthy v = (case v of None \<Rightarrow> False | Some s \<Rightarrow> s \<noteq> [])"

definition Home :: "string option \<Rightarrow> navigation + page" where
  "Home userId = (if truthy userId then Inl (Redirect ''/dashboard'') else Inr MarketingPage)"

text \<open>
  What Clerk's \<open>auth()\<close> supplies as \<open>userId\<close>: \<open>null\<close> when nobody is signed in, and otherwise
  the id of the signed-in user, a string such as \<open>user_2abc\<close> that is never empty.
\<close>

definition supplied_by_auth :: "string option \<Rightarrow> bool" where
  "supplied_by_auth userId = (case userId of None \<Rightarrow> True | Some s \<Rightarrow> s \<noteq> [])"

section \<open>The client-side redirect component \<open>AuthRedirect\<close>\<close>






datatype element = Element




section \<open>The links table: \<open>src/db/schema.ts\<close>\<close>

text \<open>
  \<open>links\<close> is a PostgreSQL table declared with Drizzle. A row is a \<open>Link\<close>
  (\<open>links.$inferSelect\<close>); the values of an insert are a \<open>NewLink\<close> (\<open>links.$inferInsert\<close>):
  \<^item> \<open>id\<close>: \<open>integer().primaryKey().generatedAlwaysAsIdentity()\<close>. The column is filled from
    the table's identity sequence; it is not part of \<open>NewLink\<close> and no \<open>set\<close> can name it.
    It is the field \<open>link_id\<close> here (\<open>id\<close> is the identity function of HOL).
  \<^item> \<open>userId\<close>, \<open>shortCode\<close>, \<open>originalUrl\<close>: \<open>text(...).notNull()\<close>.
  \<^item> \<open>createdAt\<close>: \<open>timestamp(...).defaultNow().notNull()\<close>, optional in \<open>NewLink\<close>.
  \<^item> \<open>updatedAt\<close>: \<open>timestamp(...).notNull()\<close>, no default: every insert supplies it.
  \<^item> \<open>shortCodeIdx\<close>: \<open>uniqueIndex('short_code_idx').on(table.shortCode)\<close>.
  A timestamp is an instant counted in microseconds. The identity sequence is an unbounded
  integer here; no property below reaches the end of a 32-bit sequence.
\<close>

type_synonym timestamp = int

record Link =
  link_id :: int
  userId :: string
  shortCode :: string
  originalUrl :: string
  createdAt :: timestamp
  updatedAt :: timestamp

record NewLink =
  new_userId :: string
  new_shortCode :: string
  new_originalUrl :: string
  new_createdAt :: "timestamp option"
  new_updatedAt :: timestamp

text \<open>The argument of \<open>db.update(links).set(...)\<close>: any subset of the insertable columns.\<close>

record LinkSet =
  set_userId :: "string option"
  set_shortCode :: "string option"
  set_originalUrl :: "string option"
  set_createdAt :: "timestamp option"
  set_updatedAt :: "timestamp option"

text \<open>The table: its rows in insertion order and the next value of the identity sequence.\<close>

record links_table =
  rows :: "Link list"
  id_seq :: int

definition empty_links :: links_table where
  "empty_links = \<lparr>rows = [], id_seq = 1\<rparr>"

datatype db_error = UniqueViolation

definition shortCodes :: "links_table \<Rightarrow> string list" where
  "shortCodes t = map shortCode (rows t)"

text \<open>
  \<open>INSERT\<close>. The row takes the next identity value, which the sequence hands out whether or
  not the insert succeeds, and \<open>now\<close> for \<open>createdAt\<close> when the values leave it out. The unique
  index \<open>short_code_idx\<close> rejects the row when a row with its \<open>shortCode\<close> is in the table.
\<close>

definition new_row :: "timestamp \<Rightarrow> NewLink \<Rightarrow> int \<Rightarrow> Link" where
  "new_row now v i =
     \<lparr>link_id = i, userId = new_userId v, shortCode = new_shortCode v,
      originalUrl = new_originalUrl v,
      createdAt = (case new_createdAt v of None \<Rightarrow> now | Some c \<Rightarrow> c),
      updatedAt = new_updatedAt v\<rparr>"

definition insert_link :: "timestamp \<Rightarrow> NewLink \<Rightarrow> links_table \<Rightarrow> (db_error + Link) \<times> links_table" where
  "insert_link now v t =
     (let row = new_row now v (id_seq t);
          t' = t\<lparr>id_seq := id_seq t + 1\<rparr>
      in if new_shortCode v \<in> set (shortCodes t)
         then (Inl UniqueViolation, t')
         else (Inr row, t'\<lparr>rows := rows t @ [row]\<rparr>))"

text \<open>
  \<open>UPDATE ... SET ... WHERE\<close>. Every row the condition selects gets the columns of the
  \<open>set\<close>. The statement fails as a whole, leaving the table as it was, when the rows it
  would produce do not all have different \<open>shortCode\<close>s. (PostgreSQL checks the index row by
  row and so rejects at least these statements.) Its result is the rows it changed, what
  \<open>.returning()\<close> gives.
\<close>

definition apply_set :: "LinkSet \<Rightarrow> Link \<Rightarrow> Link" where
  "apply_set s r =
     r\<lparr>userId := (case set_userId s of None \<Rightarrow> userId r | Some x \<Rightarrow> x),
       shortCode := (case set_shortCode s of None \<Rightarrow> shortCode r | Some x \<Rightarrow> x),
       originalUrl := (case set_originalUrl s of None \<Rightarrow> originalUrl r | Some x \<Rightarrow> x),
       createdAt := (case set_createdAt s of None \<Rightarrow> createdAt r | Some x \<Rightarrow> x),
       updatedAt := (case set_updatedAt s of None \<Rightarrow> updatedAt r | Some x \<Rightarrow> x)\<rparr>"

definition update_rows :: "LinkSet \<Rightarrow> (Link \<Rightarrow> bool) \<Rightarrow> Link list \<Rightarrow> Link list" where
  "update_rows s p rs = map (\<lambda>r. if p r then apply_set s r else r) rs"

definition update_links :: "LinkSet \<Rightarrow> (Link \<Rightarrow> bool) \<Rightarrow> links_table \<Rightarrow> (db_error + Link list) \<times> links_table" where
  "update_links s p t =
     (let rs = update_rows s p (rows t)
      in if distinct (map shortCode rs)
         then (Inr (map (apply_set s) (filter p (rows t))), t\<lparr>rows := rs\<rparr>)
         else (Inl UniqueViolation, t))"

text \<open>\<open>DELETE ... WHERE\<close> removes the rows the condition selects.\<close>

definition delete_links :: "(Link \<Rightarrow> bool) \<Rightarrow> links_table \<Rightarrow> links_table" where
  "delete_links p t = t\<lparr>rows := filter (\<lambda>r. \<not> p r) (rows t)\<rparr>"

text \<open>
  A statement against the table, as Drizzle builds it: \<open>db.insert(links).values(v)\<close>,
  \<open>db.update(links).set(s).where(p)\<close> and \<open>db.delete(links).where(p)\<close>; and the table
  after a sequence of statements.
\<close>

datatype statement =
    Insert timestamp NewLink
  | Update LinkSet "Link \<Rightarrow> bool"
  | Delete "Link \<Rightarrow> bool"

fun exec :: "statement \<Rightarrow> links_table \<Rightarrow> links_table" where
  "exec (Insert now v) t = snd (insert_link now v t)"
| "exec (Update s p) t = snd (update_links s p t)"
| "exec (Delete p) t = delete_links p t"

fun exec_all :: "statement list \<Rightarrow> links_table \<Rightarrow> links_table" where
  "exec_all [] t = t"
| "exec_all (st # sts) t = exec_all sts (exec st t)"

section \<open>Deleting a link: \<open>deleteLink\<close> of \<open>src/docs/authentication-guidelines.md\<close>\<close>

text \<open>
  The server action \<open>deleteLink(linkId: string)\<close> reads \<open>userId\<close> from \<open>auth()\<close>, throws
  \<open>Error('Unauthorized')\<close> when it is falsy, and otherwise awaits
  \<open>db.delete(links).where(and(eq(links.id, linkId), eq(links.userId, userId)))\<close> and returns
  nothing. \<open>linkId\<close> is a string, and \<open>id\<close> is an integer column (int4) in \<open>schema.ts\<close>: the
  database converts the key to int4 to compare it, and the query fails, so that the awaited
  call throws, when the key is not an integer literal or is outside the int4 range. That
  conversion is the database's and is a parameter \<open>conv\<close> of the model: \<open>conv key\<close> is the
  integer the key stands for, or \<open>None\<close> when the database rejects it.

  One error type serves every operation on links, so that outcomes can be compared:
  \<open>Unauthorized\<close> and \<open>QueryError\<close> are what \<open>deleteLink\<close> throws, the others are those the
  specification gives the Link Store.
\<close>

datatype error = Unauthorized | QueryError | DuplicateCode | NotFound | Forbidden

definition deleteLink :: "(string \<Rightarrow> int option) \<Rightarrow> string option \<Rightarrow> string \<Rightarrow> links_table \<Rightarrow> (error + unit) \<times> links_table" where
  "deleteLink conv auth_userId linkId t =
     (if \<not> truthy auth_userId then (Inl Unauthorized, t)
      else case conv linkId of
             None \<Rightarrow> (Inl QueryError, t)
           | Some i \<Rightarrow>
               (Inr (), delete_links (\<lambda>r. link_id r = i \<and> Some (userId r) = auth_userId) t))"

text \<open>
  The conversion on plain decimal literals, for the examples below: an optional sign and
  one or more digits, with a value in the int4 range. PostgreSQL reads these so; it also
  accepts a few more spellings (blanks around the literal, and other bases in recent
  versions), which this instance rejects. The theorems below hold for every conversion; the
  instance appears in their examples only.
\<close>

definition digit :: "char \<Rightarrow> int option" where
  "digit c = map_of (zip ''0123456789'' [0, 1, 2, 3, 4, 5, 6, 7, 8, 9]) c"

fun digits :: "int \<Rightarrow> string \<Rightarrow> int option" where
  "digits acc [] = Some acc"
| "digits acc (c # cs) = (case digit c of None \<Rightarrow> None | Some d \<Rightarrow> digits (10 * acc + d) cs)"

definition in_int4 :: "int \<Rightarrow> int option" where
  "in_int4 v = (if - 2147483648 \<le> v \<and> v \<le> 2147483647 then Some v else None)"

definition unsigned_literal :: "string \<Rightarrow> int option" where
  "unsigned_literal ds = (if ds = [] then None else digits 0 ds)"

definition decimal_int4 :: "string \<Rightarrow> int option" where
  "decimal_int4 key =
     (case key of
        [] \<Rightarrow> None
      | c # cs \<Rightarrow>
          if c = CHR ''-'' then
            (case unsigned_literal cs of None \<Rightarrow> None | Some n \<Rightarrow> in_int4 (- n))
          else if c = CHR ''+'' then
            (case unsigned_literal cs of None \<Rightarrow> None | Some n \<Rightarrow> in_int4 n)
          else
            (case unsigned_literal key of None \<Rightarrow> None | Some n \<Rightarrow> in_int4 n))"

section \<open>The Link Store of the specification\<close>

text \<open>
  Modelled from the spec: \<open>create(ownerId, code, url) -> Link | DuplicateCode\<close> of the Link
  Store (section 4.2) is not in the source files. It is the single constrained insert the
  specification asks for (section 9): one \<open>INSERT\<close> into \<open>links\<close>, whose unique-index
  violation is reported as \<open>DuplicateCode\<close>. \<open>createdAt\<close> is left to the column default and
  \<open>updatedAt\<close>, which has none, is the time of the call.
\<close>

definition create :: "timestamp \<Rightarrow> string \<Rightarrow> string \<Rightarrow> string \<Rightarrow> links_table \<Rightarrow> (error + Link) \<times> links_table" where
  "create now ownerId code url t =
     (case insert_link now
             \<lparr>new_userId = ownerId, new_shortCode = code, new_originalUrl = url,
              new_createdAt = None, new_updatedAt = now\<rparr> t of
        (Inl UniqueViolation, t') \<Rightarrow> (Inl DuplicateCode, t')
      | (Inr l, t') \<Rightarrow> (Inr l, t'))"

text \<open>
  Modelled from the spec: \<open>resolve(code) -> Link | NotFound\<close> of the Link Store is not in the
  source files. It is "a pure read keyed by \<open>shortCode\<close>": the row with that code, if any.
  The table is returned with the result, as every operation does.
\<close>

definition resolve :: "string \<Rightarrow> links_table \<Rightarrow> (error + Link) \<times> links_table" where
  "resolve code t =
     (case find (\<lambda>r. shortCode r = code) (rows t) of
        None \<Rightarrow> (Inl NotFound, t)
      | Some l \<Rightarrow> (Inr l, t))"

text \<open>
  Modelled from the spec: the policy for an ownership mismatch (section 4.2): \<open>Forbidden\<close>
  distinct from \<open>NotFound\<close>, or both collapsed into \<open>NotFound\<close>; and the capability check
  \<open>authorize(ownerId, resource) -> bool\<close> of section 9. Neither is in the source files.
\<close>

datatype ownership_policy = ForbiddenDistinct | CollapsedToNotFound

definition mismatch :: "ownership_policy \<Rightarrow> error" where
  "mismatch pol = (case pol of ForbiddenDistinct \<Rightarrow> Forbidden | CollapsedToNotFound \<Rightarrow> NotFound)"

definition authorize :: "string \<Rightarrow> Link \<Rightarrow> bool" where
  "authorize ownerId l = (userId l = ownerId)"

text \<open>
  Modelled from the spec: \<open>update(ownerId, linkId, url) -> Link | NotFound | Forbidden\<close> of
  the Link Store is not in the source files. It looks the link up by \<open>linkId\<close>, requires the
  ownership match, and then sets \<open>targetUrl\<close> (the column \<open>originalUrl\<close>) and \<open>updatedAt\<close>
  ("updated on any mutation") on that link.
\<close>

definition url_set :: "string \<Rightarrow> timestamp \<Rightarrow> LinkSet" where
  "url_set url now =
     \<lparr>set_userId = None, set_shortCode = None, set_originalUrl = Some url,
      set_createdAt = None, set_updatedAt = Some now\<rparr>"

definition update :: "ownership_policy \<Rightarrow> timestamp \<Rightarrow> string \<Rightarrow> int \<Rightarrow> string \<Rightarrow> links_table \<Rightarrow> (error + Link) \<times> links_table" where
  "update pol now ownerId linkId url t =
     (case find (\<lambda>r. link_id r = linkId) (rows t) of
        None \<Rightarrow> (Inl NotFound, t)
      | Some l \<Rightarrow>
          if \<not> authorize ownerId l then (Inl (mismatch pol), t)
          else (Inr (apply_set (url_set url now) l),
                t\<lparr>rows := update_rows (url_set url now) (\<lambda>r. link_id r = linkId) (rows t)\<rparr>))"

text \<open>
  Modelled from the spec: the operations of the Link Store as values, and the table after a
  sequence of them, built from \<open>create\<close> and \<open>update\<close> above. Deleting is \<open>deleteLink\<close> of
  the source, with its string key and the database's conversion \<open>conv\<close> of keys.
\<close>

datatype operation =
    Create timestamp string string string
  | UpdateUrl ownership_policy timestamp string int string
  | DeleteLink "string option" string

fun apply_op :: "(string \<Rightarrow> int option) \<Rightarrow> operation \<Rightarrow> links_table \<Rightarrow> links_table" where
  "apply_op conv (Create now ownerId code url) t = snd (create now ownerId code url t)"
| "apply_op conv (UpdateUrl pol now ownerId linkId url) t =
     snd (update pol now ownerId linkId url t)"
| "apply_op conv (DeleteLink auth_userId linkId) t = snd (deleteLink conv auth_userId linkId t)"

fun apply_ops :: "(string \<Rightarrow> int option) \<Rightarrow> operation list \<Rightarrow> links_table \<Rightarrow> links_table" where
  "apply_ops conv [] t = t"
| "apply_ops conv (x # xs) t = apply_ops conv xs (apply_op conv x t)"

text \<open>The code an operation asks \<open>create\<close> to issue, if it is a \<open>create\<close>.\<close>

fun requested_code :: "operation \<Rightarrow> string option" where
  "requested_code (Create now ownerId code url) = Some code"
| "requested_code (UpdateUrl pol now ownerId linkId url) = None"
| "requested_code (DeleteLink auth_userId linkId) = None"

text \<open>
  The primary key and the identity sequence: the \<open>id\<close>s in the table are pairwise different
  and all below the next value of the sequence.
\<close>

definition keys_ok :: "links_table \<Rightarrow> bool" where
  "keys_ok t = (distinct (map link_id (rows t)) \<and> (\<forall>r \<in> set (rows t). link_id r < id_seq t))"

section \<open>Sample data\<close>

text \<open>
  The scenario of the specification: a link to \<open>https://example.com/page\<close> under the custom
  code \<open>promo1\<close>, created at time 10 in the empty table.
\<close>

definition promo_values :: NewLink where
  "promo_values =
     \<lparr>new_userId = ''user_alice'', new_shortCode = ''promo1'',
      new_originalUrl = ''https://example.com/page'', new_createdAt = None, new_updatedAt = 10\<rparr>"

definition promo_link :: Link where
  "promo_link =
     \<lparr>link_id = 1, userId = ''user_alice'', shortCode = ''promo1'',
      originalUrl = ''https://example.com/page'', createdAt = 10, updatedAt = 10\<rparr>"

definition promo_table :: links_table where
  "promo_table = \<lparr>rows = [promo_link], id_seq = 2\<rparr>"

section \<open>Properties of the homepage\<close>

text \<open>
  Claim C9. For every \<open>userId\<close> that the authentication provider supplies: if it is not
  \<open>null\<close>, \<open>Home\<close> redirects to \<open>/dashboard\<close> and renders nothing (the redirect is the whole
  result); if it is \<open>null\<close>, \<open>Home\<close> renders the marketing page and performs no redirect.
\<close>

theorem Home_redirects_signed_in:
  assumes "supplied_by_auth uid"
  shows "(uid \<noteq> None \<longrightarrow> Home uid = Inl (Redirect ''/dashboard''))
       \<and> (uid = None \<longrightarrow> Home uid = Inr MarketingPage)"
  using assms by (cases uid) (simp_all add: Home_def truthy_def supplied_by_auth_def)

text \<open>A signed-in user and a visitor who is not signed in.\<close>

theorem Home_redirects_signed_in_witness:
  "supplied_by_auth (Some ''user_2abc'') \<and> Home (Some ''user_2abc'') = Inl (Redirect ''/dashboard'')
   \<and> supplied_by_auth None \<and> Home None = Inr MarketingPage"
proof -
  have a: "supplied_by_auth (Some ''user_2abc'')" and b: "supplied_by_auth None"
    by (simp_all add: supplied_by_auth_def)
  from Home_redirects_signed_in [OF a] Home_redirects_signed_in [OF b] a b show ?thesis
    by simp
qed

section \<open>Properties of \<open>AuthRedirect\<close>\<close>





section \<open>Uniqueness of short codes\<close>

lemma at_most_one_of_distinct:
  "distinct (map f xs) \<Longrightarrow> length (filter (\<lambda>x. f x = c) xs) \<le> Suc 0"
proof (induction xs)
  case Nil
  then show ?case by simp
next
  case (Cons x xs)
  show ?case
  proof (cases "f x = c")
    case True
    with Cons.prems have "c \<notin> f ` set xs" by auto
    then have "filter (\<lambda>x. f x = c) xs = []" by (auto simp: filter_empty_conv)
    with True show ?thesis by simp
  next
    case False
    with Cons show ?thesis by simp
  qed
qed

lemma insert_link_distinct:
  "distinct (shortCodes t) \<Longrightarrow> distinct (shortCodes (snd (insert_link now v t)))"
  by (simp add: insert_link_def shortCodes_def new_row_def Let_def)

lemma update_links_distinct:
  "distinct (shortCodes t) \<Longrightarrow> distinct (shortCodes (snd (update_links s p t)))"
  by (simp add: update_links_def shortCodes_def Let_def)

lemma delete_links_distinct:
  "distinct (shortCodes t) \<Longrightarrow> distinct (shortCodes (delete_links p t))"
  by (simp add: delete_links_def shortCodes_def distinct_map_filter)

lemma exec_distinct:
  "distinct (shortCodes t) \<Longrightarrow> distinct (shortCodes (exec st t))"
  by (cases st) (simp_all add: insert_link_distinct update_links_distinct delete_links_distinct)

lemma exec_all_distinct:
  "distinct (shortCodes t) \<Longrightarrow> distinct (shortCodes (exec_all sts t))"
  by (induction sts arbitrary: t) (simp_all add: exec_distinct)

text \<open>
  Claim C1. After every sequence of insert, update and delete statements run against the
  empty table, and for every code \<open>c\<close>, at most one row has \<open>shortCode\<close> equal to \<open>c\<close>. The
  statements are arbitrary: the unique index of the table rejects the ones that would give
  two rows the same code, whoever issues them.
\<close>

theorem shortCode_unique:
  "length (filter (\<lambda>l. shortCode l = c) (rows (exec_all sts empty_links))) \<le> 1"
proof -
  have "distinct (shortCodes empty_links)" by (simp add: shortCodes_def empty_links_def)
  then have "distinct (map shortCode (rows (exec_all sts empty_links)))"
    using exec_all_distinct [of empty_links sts] by (simp add: shortCodes_def)
  then show ?thesis using at_most_one_of_distinct [of shortCode _ c] by simp
qed

text \<open>
  Four statements: the second insert and the update both try to reuse \<open>promo1\<close> and are
  rejected.
\<close>

theorem shortCode_unique_witness:
  "rows (exec_all
           [Insert 10 promo_values,
            Insert 11 (promo_values\<lparr>new_userId := ''user_bob''\<rparr>),
            Insert 12 (promo_values\<lparr>new_shortCode := ''sale''\<rparr>),
            Update \<lparr>set_userId = None, set_shortCode = Some ''promo1'', set_originalUrl = None,
                    set_createdAt = None, set_updatedAt = None\<rparr> (\<lambda>r. link_id r = 3)]
           empty_links)
     = [promo_link, promo_link\<lparr>link_id := 3, shortCode := ''sale'', createdAt := 12\<rparr>]
   \<and> length (filter (\<lambda>l. shortCode l = ''promo1'')
         (rows (exec_all
           [Insert 10 promo_values,
            Insert 11 (promo_values\<lparr>new_userId := ''user_bob''\<rparr>),
            Insert 12 (promo_values\<lparr>new_shortCode := ''sale''\<rparr>),
            Update \<lparr>set_userId = None, set_shortCode = Some ''promo1'', set_originalUrl = None,
                    set_createdAt = None, set_updatedAt = None\<rparr> (\<lambda>r. link_id r = 3)]
           empty_links))) \<le> 1"
  using shortCode_unique [of "''promo1''"
           "[Insert 10 promo_values,
            Insert 11 (promo_values\<lparr>new_userId := ''user_bob''\<rparr>),
            Insert 12 (promo_values\<lparr>new_shortCode := ''sale''\<rparr>),
            Update \<lparr>set_userId = None, set_shortCode = Some ''promo1'', set_originalUrl = None,
                    set_createdAt = None, set_updatedAt = None\<rparr> (\<lambda>r. link_id r = 3)]"]
  by (simp add: empty_links_def insert_link_def update_links_def update_rows_def apply_set_def
      shortCodes_def new_row_def promo_values_def promo_link_def Let_def)

section \<open>Ownership\<close>

lemma delete_links_keeps:
  "l \<in> set (rows t) \<Longrightarrow> \<not> p l \<Longrightarrow> l \<in> set (rows (delete_links p t))"
  by (simp add: delete_links_def)

lemma filter_all: "(\<And>x. x \<in> set xs \<Longrightarrow> P x) \<Longrightarrow> filter P xs = xs"
  by (induction xs) auto

lemma find_unique_key:
  "distinct (map f xs) \<Longrightarrow> x \<in> set xs \<Longrightarrow> find (\<lambda>r. f r = f x) xs = Some x"
  by (induction xs) (auto simp: image_iff)

lemma delete_other_owner:
  assumes "distinct (map link_id (rows t))" "l \<in> set (rows t)" "userId l \<noteq> caller"
  shows "delete_links (\<lambda>r. link_id r = link_id l \<and> Some (userId r) = Some caller) t = t"
proof -
  have "\<And>r. r \<in> set (rows t) \<Longrightarrow> \<not> (link_id r = link_id l \<and> userId r = caller)"
    using assms by (metis distinct_map inj_on_def)
  then have "filter (\<lambda>r. \<not> (link_id r = link_id l \<and> Some (userId r) = Some caller)) (rows t) = rows t"
    by (intro filter_all) simp
  then show ?thesis by (simp add: delete_links_def)
qed

lemma deleteLink_result:
  "fst (deleteLink conv (Some caller) key t) =
     (if caller = [] then Inl Unauthorized
      else case conv key of None \<Rightarrow> Inl QueryError | Some i \<Rightarrow> Inr ())"
  by (simp add: deleteLink_def truthy_def split: option.splits)

lemma deleteLink_keeps:
  "l \<in> set (rows t) \<Longrightarrow> userId l \<noteq> caller \<Longrightarrow>
   l \<in> set (rows (snd (deleteLink conv (Some caller) key t)))"
  by (simp add: deleteLink_def delete_links_keeps split: option.splits)

lemma update_other_owner:
  assumes "distinct (map link_id (rows t))" "l \<in> set (rows t)" "userId l \<noteq> caller"
  shows "update pol now caller (link_id l) url t = (Inl (mismatch pol), t)"
proof -
  have "find (\<lambda>r. link_id r = link_id l) (rows t) = Some l"
    using find_unique_key [of link_id "rows t" l] assms by simp
  then show ?thesis using assms(3) by (simp add: update_def authorize_def)
qed

text \<open>
  Claim C6, as amended. Take a table whose \<open>id\<close>s are pairwise different (\<open>id\<close> is its primary
  key), a link \<open>l\<close> in it and a caller whose \<open>userId\<close> differs from the owner of \<open>l\<close>.
  \<^item> \<open>update\<close> on \<open>l\<close> returns \<open>Forbidden\<close>, or \<open>NotFound\<close> under the policy that collapses the
    two, and leaves the table unchanged.
  \<^item> \<open>deleteLink\<close>, whatever key it is given, leaves \<open>l\<close> in the table as it was, and called
    with a key that stands for the \<open>id\<close> of \<open>l\<close> it leaves the whole table unchanged.
  \<^item> \<open>deleteLink\<close> reports neither \<open>Forbidden\<close> nor \<open>NotFound\<close>: it returns normally, as a
    successful delete does, whenever the database accepts the key. It throws \<open>Unauthorized\<close>
    for a caller without a \<open>userId\<close>, and the query's error for a key the database rejects.
\<close>

theorem non_owner_cannot_mutate:
  assumes "distinct (map link_id (rows t))" and "l \<in> set (rows t)" and "userId l \<noteq> caller"
  shows "update pol now caller (link_id l) url t = (Inl (mismatch pol), t)
       \<and> mismatch ForbiddenDistinct = Forbidden \<and> mismatch CollapsedToNotFound = NotFound
       \<and> l \<in> set (rows (snd (deleteLink conv (Some caller) key t)))
       \<and> (conv key = Some (link_id l) \<longrightarrow> snd (deleteLink conv (Some caller) key t) = t)
       \<and> fst (deleteLink conv (Some caller) key t) =
           (if caller = [] then Inl Unauthorized
            else case conv key of None \<Rightarrow> Inl QueryError | Some i \<Rightarrow> Inr ())"
proof (intro conjI impI)
  show "update pol now caller (link_id l) url t = (Inl (mismatch pol), t)"
    using assms by (rule update_other_owner)
  show "mismatch ForbiddenDistinct = Forbidden" and "mismatch CollapsedToNotFound = NotFound"
    by (simp_all add: mismatch_def)
  show "l \<in> set (rows (snd (deleteLink conv (Some caller) key t)))"
    using assms(2,3) by (rule deleteLink_keeps)
  show "snd (deleteLink conv (Some caller) key t) = t" if "conv key = Some (link_id l)"
    using delete_other_owner [OF assms] that by (simp add: deleteLink_def)
  show "fst (deleteLink conv (Some caller) key t) =
           (if caller = [] then Inl Unauthorized
            else case conv key of None \<Rightarrow> Inl QueryError | Some i \<Rightarrow> Inr ())"
    by (rule deleteLink_result)
qed

lemma decimal_int4_examples:
  "decimal_int4 ''1'' = Some 1" "decimal_int4 ''abc'' = None"
  "decimal_int4 ''2147483647'' = Some 2147483647" "decimal_int4 ''2147483648'' = None"
  "decimal_int4 ''-2147483648'' = Some (- 2147483648)" "decimal_int4 [] = None"
  by (simp_all add: decimal_int4_def unsigned_literal_def in_int4_def digit_def)

text \<open>
  Bob tries both operations on Alice's link, whose \<open>id\<close> is 1: \<open>update\<close> is refused and the
  delete changes nothing and returns normally. With keys the database rejects, \<open>deleteLink\<close>
  throws the query's error.
\<close>

theorem non_owner_cannot_mutate_witness:
  "distinct (map link_id (rows promo_table)) \<and> promo_link \<in> set (rows promo_table)
   \<and> userId promo_link \<noteq> ''user_bob''
   \<and> update ForbiddenDistinct 20 ''user_bob'' 1 ''https://evil.example'' promo_table
       = (Inl Forbidden, promo_table)
   \<and> update CollapsedToNotFound 20 ''user_bob'' 1 ''https://evil.example'' promo_table
       = (Inl NotFound, promo_table)
   \<and> deleteLink decimal_int4 (Some ''user_bob'') ''1'' promo_table = (Inr (), promo_table)
   \<and> fst (deleteLink decimal_int4 (Some ''user_bob'') ''abc'' promo_table) = Inl QueryError
   \<and> fst (deleteLink decimal_int4 (Some ''user_bob'') ''2147483648'' promo_table) = Inl QueryError"
proof -
  have h: "distinct (map link_id (rows promo_table))" "promo_link \<in> set (rows promo_table)"
      "userId promo_link \<noteq> ''user_bob''"
    by (simp_all add: promo_table_def promo_link_def)
  have i: "link_id promo_link = 1" by (simp add: promo_link_def)
  note bob = non_owner_cannot_mutate [OF h, where conv = decimal_int4]
  from bob [where pol = ForbiddenDistinct and now = 20 and url = "''https://evil.example''"
              and key = "''1''"]
  have a: "update ForbiddenDistinct 20 ''user_bob'' 1 ''https://evil.example'' promo_table
             = (Inl Forbidden, promo_table)"
    and d: "deleteLink decimal_int4 (Some ''user_bob'') ''1'' promo_table = (Inr (), promo_table)"
    by (simp_all add: i decimal_int4_examples prod_eq_iff)
  from bob [where pol = CollapsedToNotFound and now = 20 and url = "''https://evil.example''"
              and key = "''abc''"]
  have b: "update CollapsedToNotFound 20 ''user_bob'' 1 ''https://evil.example'' promo_table
             = (Inl NotFound, promo_table)"
    and e: "fst (deleteLink decimal_int4 (Some ''user_bob'') ''abc'' promo_table) = Inl QueryError"
    by (simp_all add: i decimal_int4_examples)
  from bob [where key = "''2147483648''"]
  have f: "fst (deleteLink decimal_int4 (Some ''user_bob'') ''2147483648'' promo_table) = Inl QueryError"
    by (simp add: decimal_int4_examples)
  from h a b d e f show ?thesis by simp
qed

text \<open>
  Claim C6 as the specification states it has \<open>delete\<close> by a non-owner return \<open>Forbidden\<close>
  or \<open>NotFound\<close>. Bob's \<open>deleteLink\<close> on Alice's link, with the key of that link, returns
  normally.
\<close>

theorem non_owner_delete_counterexample:
  "promo_link \<in> set (rows promo_table) \<and> userId promo_link \<noteq> ''user_bob''
   \<and> decimal_int4 ''1'' = Some (link_id promo_link)
   \<and> fst (deleteLink decimal_int4 (Some ''user_bob'') ''1'' promo_table) = Inr ()
   \<and> fst (deleteLink decimal_int4 (Some ''user_bob'') ''1'' promo_table) \<noteq> Inl Forbidden
   \<and> fst (deleteLink decimal_int4 (Some ''user_bob'') ''1'' promo_table) \<noteq> Inl NotFound"
  by (simp add: promo_table_def promo_link_def deleteLink_def truthy_def decimal_int4_examples)

section \<open>Create and resolve\<close>

lemma find_snoc_fresh:
  "c \<notin> f ` set xs \<Longrightarrow> f y = c \<Longrightarrow> find (\<lambda>r. f r = c) (xs @ [y]) = Some y"
  by (induction xs) auto

lemma find_absent: "c \<notin> f ` set xs \<Longrightarrow> find (\<lambda>r. f r = c) xs = None"
  by (induction xs) auto

lemma create_taken:
  "code \<in> set (shortCodes t) \<Longrightarrow>
   create now ownerId code url t = (Inl DuplicateCode, t\<lparr>id_seq := id_seq t + 1\<rparr>)"
  by (simp add: create_def insert_link_def Let_def)

lemma create_free:
  "code \<notin> set (shortCodes t) \<Longrightarrow>
   create now ownerId code url t =
     (Inr \<lparr>link_id = id_seq t, userId = ownerId, shortCode = code, originalUrl = url,
           createdAt = now, updatedAt = now\<rparr>,
      t\<lparr>id_seq := id_seq t + 1,
        rows := rows t @ [\<lparr>link_id = id_seq t, userId = ownerId, shortCode = code,
                           originalUrl = url, createdAt = now, updatedAt = now\<rparr>]\<rparr>)"
  by (simp add: create_def insert_link_def Let_def new_row_def)

lemma create_promo:
  "create 10 ''user_alice'' ''promo1'' ''https://example.com/page'' empty_links
     = (Inr promo_link, promo_table)"
  by (simp add: create_free shortCodes_def empty_links_def promo_link_def promo_table_def)

text \<open>
  Claim C3. When \<open>create(ownerId, code, url)\<close> succeeds and returns a link, \<open>resolve\<close> on the
  code of that link, in the table \<open>create\<close> left, returns that link, whose owner is
  \<open>ownerId\<close> and whose target is \<open>url\<close>.
\<close>

theorem create_then_resolve:
  assumes "create now ownerId code url t = (Inr l, t')"
  shows "resolve (shortCode l) t' = (Inr l, t') \<and> userId l = ownerId \<and> originalUrl l = url"
proof (cases "code \<in> set (shortCodes t)")
  case True
  with assms show ?thesis by (simp add: create_taken)
next
  case False
  then have fresh: "code \<notin> shortCode ` set (rows t)" by (simp add: shortCodes_def)
  from assms False
  have l: "l = \<lparr>link_id = id_seq t, userId = ownerId, shortCode = code, originalUrl = url,
                createdAt = now, updatedAt = now\<rparr>"
    and t': "rows t' = rows t @ [l]"
    by (auto simp: create_free)
  from l have "shortCode l = code" by simp
  then have "find (\<lambda>r. shortCode r = shortCode l) (rows t') = Some l"
    using find_snoc_fresh [OF fresh, of l] t' by simp
  with l show ?thesis by (simp add: resolve_def)
qed

text \<open>The scenario of the specification: \<open>promo1\<close> created in the empty table.\<close>

theorem create_then_resolve_witness:
  "create 10 ''user_alice'' ''promo1'' ''https://example.com/page'' empty_links
     = (Inr promo_link, promo_table)
   \<and> resolve ''promo1'' promo_table = (Inr promo_link, promo_table)
   \<and> userId promo_link = ''user_alice''
   \<and> originalUrl promo_link = ''https://example.com/page''"
  using create_then_resolve [OF create_promo] create_promo
  by (simp add: promo_link_def)

lemma shortCode_url_set [simp]: "shortCode (apply_set (url_set url now) r) = shortCode r"
  by (simp add: apply_set_def url_set_def)

lemma map_shortCode_update_rows [simp]:
  "map shortCode (update_rows (url_set url now) p rs) = map shortCode rs"
  by (induction rs) (simp_all add: update_rows_def)

lemma apply_op_codes:
  "c \<in> set (shortCodes (apply_op conv x t)) \<Longrightarrow> c \<in> set (shortCodes t) \<or> requested_code x = Some c"
proof (cases x)
  case (Create now ownerId code url)
  assume "c \<in> set (shortCodes (apply_op conv x t))"
  with Create show ?thesis
    by (cases "code \<in> set (shortCodes t)") (auto simp: create_taken create_free shortCodes_def)
next
  case (UpdateUrl pol now ownerId linkId url)
  assume "c \<in> set (shortCodes (apply_op conv x t))"
  moreover have "shortCodes (snd (update pol now ownerId linkId url t)) = shortCodes t"
    by (simp add: update_def shortCodes_def split: option.splits)
  ultimately show ?thesis using UpdateUrl by simp
next
  case (DeleteLink a i)
  assume "c \<in> set (shortCodes (apply_op conv x t))"
  with DeleteLink show ?thesis
    by (auto simp: deleteLink_def delete_links_def shortCodes_def split: if_splits option.splits)
qed

lemma apply_ops_codes:
  "c \<in> set (shortCodes (apply_ops conv xs t)) \<Longrightarrow>
   c \<in> set (shortCodes t) \<or> Some c \<in> requested_code ` set xs"
proof (induction xs arbitrary: t)
  case Nil
  then show ?case by simp
next
  case (Cons x xs)
  from Cons.prems have "c \<in> set (shortCodes (apply_ops conv xs (apply_op conv x t)))" by simp
  from Cons.IH [OF this] show ?case
    using apply_op_codes [where c = c and x = x and t = t and conv = conv] by auto
qed

text \<open>
  Claim C5. \<open>resolve\<close> on a code that no link in the table has returns \<open>NotFound\<close> and the
  table as it was. In particular, after any sequence of Link Store operations on the empty
  table in which no \<open>create\<close> asked for the code, \<open>resolve\<close> on it returns \<open>NotFound\<close>. The
  operations run with any conversion \<open>conv\<close> of the keys of \<open>deleteLink\<close>.
\<close>

theorem resolve_unissued:
  "(code \<notin> set (shortCodes t) \<longrightarrow> resolve code t = (Inl NotFound, t))
   \<and> (Some code \<notin> requested_code ` set xs
        \<longrightarrow> resolve code (apply_ops conv xs empty_links) = (Inl NotFound, apply_ops conv xs empty_links))"
proof -
  have a: "resolve code t = (Inl NotFound, t)" if "code \<notin> set (shortCodes t)" for t
    using that by (simp add: resolve_def shortCodes_def find_absent)
  have "code \<notin> set (shortCodes (apply_ops conv xs empty_links))" if "Some code \<notin> requested_code ` set xs"
    using that apply_ops_codes [where c = code and xs = xs and t = empty_links and conv = conv] by (auto simp: shortCodes_def empty_links_def)
  with a show ?thesis by blast
qed

text \<open>\<open>summer\<close> was never issued: the only \<open>create\<close> asked for \<open>promo1\<close>.\<close>

theorem resolve_unissued_witness:
  "''summer'' \<notin> set (shortCodes promo_table)
   \<and> resolve ''summer'' promo_table = (Inl NotFound, promo_table)
   \<and> resolve ''summer''
        (apply_ops decimal_int4 [Create 10 ''user_alice'' ''promo1'' ''https://example.com/page''] empty_links)
       = (Inl NotFound, promo_table)"
  using resolve_unissued [where code = "''summer''" and t = promo_table and conv = decimal_int4
      and xs = "[Create 10 ''user_alice'' ''promo1'' ''https://example.com/page'']"] create_promo
  by (simp add: shortCodes_def promo_table_def promo_link_def)

section \<open>Identifier and timestamps of a link\<close>

lemma link_id_apply_set [simp]: "link_id (apply_set s r) = link_id r"
  by (simp add: apply_set_def)

lemma createdAt_url_set [simp]: "createdAt (apply_set (url_set url now) r) = createdAt r"
  by (simp add: apply_set_def url_set_def)

lemma updatedAt_url_set [simp]: "updatedAt (apply_set (url_set url now) r) = now"
  by (simp add: apply_set_def url_set_def)

lemma map_link_id_update_rows [simp]: "map link_id (update_rows s p rs) = map link_id rs"
  by (induction rs) (simp_all add: update_rows_def)

lemma map_createdAt_update_rows [simp]:
  "map createdAt (update_rows (url_set url now) p rs) = map createdAt rs"
  by (induction rs) (simp_all add: update_rows_def)

lemma set_update_rows:
  "r' \<in> set (update_rows s p rs) \<Longrightarrow> \<exists>r \<in> set rs. r' = (if p r then apply_set s r else r)"
  by (auto simp: update_rows_def)

lemma updatedAt_update_rows:
  "r \<in> set (update_rows (url_set url now) (\<lambda>r. link_id r = i) rs) \<Longrightarrow> link_id r = i \<Longrightarrow> updatedAt r = now"
proof -
  assume "r \<in> set (update_rows (url_set url now) (\<lambda>r. link_id r = i) rs)" and i: "link_id r = i"
  then obtain r0 where r0: "r = (if link_id r0 = i then apply_set (url_set url now) r0 else r0)"
    by (blast dest: set_update_rows)
  show ?thesis
  proof (cases "link_id r0 = i")
    case True
    with r0 show ?thesis by simp
  next
    case False
    with r0 i show ?thesis by simp
  qed
qed

text \<open>One operation: what becomes of the rows and of the sequence.\<close>

lemma apply_op_id_seq: "id_seq t \<le> id_seq (apply_op conv x t)"
proof (cases x)
  case (Create now ownerId code url)
  then show ?thesis by (cases "code \<in> set (shortCodes t)") (simp_all add: create_taken create_free)
next
  case (UpdateUrl pol now ownerId linkId url)
  then show ?thesis by (simp add: update_def split: option.splits)
next
  case (DeleteLink a i)
  then show ?thesis by (simp add: deleteLink_def delete_links_def split: option.splits)
qed

lemma apply_op_origin:
  assumes "l' \<in> set (rows (apply_op conv x t))"
  shows "(\<exists>l \<in> set (rows t). link_id l = link_id l' \<and> createdAt l = createdAt l')
         \<or> link_id l' = id_seq t"
proof (cases x)
  case (Create now ownerId code url)
  with assms show ?thesis
    by (cases "code \<in> set (shortCodes t)") (auto simp: create_taken create_free)
next
  case (UpdateUrl pol now ownerId linkId url)
  with assms show ?thesis
    by (auto simp: update_def split: option.splits if_splits dest!: set_update_rows)
next
  case (DeleteLink a i)
  with assms show ?thesis
    by (auto simp: deleteLink_def delete_links_def split: if_splits option.splits)
qed

lemma apply_op_keys_ok: "keys_ok t \<Longrightarrow> keys_ok (apply_op conv x t)"
proof (cases x)
  case (Create now ownerId code url)
  assume "keys_ok t"
  with Create show ?thesis
    by (cases "code \<in> set (shortCodes t)") (auto simp: keys_ok_def create_taken create_free)
next
  case (UpdateUrl pol now ownerId linkId url)
  assume k: "keys_ok t"
  have "\<forall>r' \<in> set (update_rows (url_set url now) (\<lambda>r. link_id r = linkId) (rows t)). link_id r' < id_seq t"
    using k by (auto simp: keys_ok_def dest!: set_update_rows)
  with k UpdateUrl show ?thesis
    by (auto simp: keys_ok_def update_def split: option.splits)
next
  case (DeleteLink a i)
  assume "keys_ok t"
  with DeleteLink show ?thesis
    by (auto simp: keys_ok_def deleteLink_def delete_links_def distinct_map_filter
        split: option.splits)
qed

lemma apply_ops_keys_ok: "keys_ok t \<Longrightarrow> keys_ok (apply_ops conv xs t)"
  by (induction xs arbitrary: t) (simp_all add: apply_op_keys_ok)

lemma apply_ops_origin:
  "keys_ok t \<Longrightarrow> l' \<in> set (rows (apply_ops conv xs t)) \<Longrightarrow>
   (\<exists>l \<in> set (rows t). link_id l = link_id l' \<and> createdAt l = createdAt l') \<or> id_seq t \<le> link_id l'"
proof (induction xs arbitrary: t)
  case Nil
  then show ?case by auto
next
  case (Cons x xs)
  have k1: "keys_ok (apply_op conv x t)" using Cons.prems(1) by (rule apply_op_keys_ok)
  from Cons.prems(2) have "l' \<in> set (rows (apply_ops conv xs (apply_op conv x t)))" by simp
  from Cons.IH [OF k1 this]
  consider l1 where "l1 \<in> set (rows (apply_op conv x t))" "link_id l1 = link_id l'" "createdAt l1 = createdAt l'"
    | "id_seq (apply_op conv x t) \<le> link_id l'" by blast
  then show ?case
  proof cases
    case 1
    from apply_op_origin [OF 1(1)] 1(2,3) show ?thesis by auto
  next
    case 2
    with apply_op_id_seq [where t = t and x = x and conv = conv] show ?thesis by simp
  qed
qed

lemma keys_ok_empty: "keys_ok empty_links"
  by (simp add: keys_ok_def empty_links_def)

text \<open>
  Claim C8. Take any table reached from the empty one by Link Store operations, any link
  \<open>l\<close> in it, and any further operations: a link with the \<open>id\<close> of \<open>l\<close> in the resulting table
  has the \<open>createdAt\<close> of \<open>l\<close>. A successful \<open>create\<close> appends one link, whose \<open>id\<close> is the next
  value of the identity sequence and whose \<open>createdAt\<close> is the time of the call. A successful
  \<open>update\<close> keeps the \<open>id\<close> and the \<open>createdAt\<close> of every row, position by position, and the
  link it returns, like every row with that \<open>id\<close>, has the time of the call as \<open>updatedAt\<close>.
  Every row that \<open>deleteLink\<close> leaves in the table is a row of the table before, with all its
  fields. The operations run with any conversion \<open>conv\<close> of the keys of \<open>deleteLink\<close>.
\<close>

theorem id_createdAt_fixed:
  "(\<forall>l \<in> set (rows (apply_ops conv xs empty_links)).
      \<forall>l' \<in> set (rows (apply_ops conv ys (apply_ops conv xs empty_links))).
        link_id l' = link_id l \<longrightarrow> createdAt l' = createdAt l)
   \<and> (create now ownerId code url t = (Inr l, t')
        \<longrightarrow> link_id l = id_seq t \<and> createdAt l = now \<and> rows t' = rows t @ [l])
   \<and> (update pol now ownerId linkId url t = (Inr l, t')
        \<longrightarrow> map link_id (rows t') = map link_id (rows t)
            \<and> map createdAt (rows t') = map createdAt (rows t)
            \<and> updatedAt l = now
            \<and> (\<forall>r \<in> set (rows t'). link_id r = linkId \<longrightarrow> updatedAt r = now))
   \<and> set (rows (snd (deleteLink conv auth_userId key t))) \<subseteq> set (rows t)"
proof (intro conjI ballI impI)
  fix l l'
  let ?t = "apply_ops conv xs empty_links"
  assume l: "l \<in> set (rows ?t)" and l': "l' \<in> set (rows (apply_ops conv ys ?t))"
    and same: "link_id l' = link_id l"
  have k: "keys_ok ?t" using keys_ok_empty by (rule apply_ops_keys_ok)
  from k l have "link_id l < id_seq ?t" by (simp add: keys_ok_def)
  with apply_ops_origin [OF k l'] same
  obtain l0 where l0: "l0 \<in> set (rows ?t)" "link_id l0 = link_id l'" "createdAt l0 = createdAt l'"
    by auto
  from k have "inj_on link_id (set (rows ?t))" by (simp add: keys_ok_def distinct_map)
  with l l0(1,2) same have "l0 = l" by (simp add: inj_on_def)
  with l0(3) show "createdAt l' = createdAt l" by simp
next
  assume c: "create now ownerId code url t = (Inr l, t')"
  then show "link_id l = id_seq t"
    by (cases "code \<in> set (shortCodes t)") (auto simp: create_taken create_free)
  from c show "createdAt l = now"
    by (cases "code \<in> set (shortCodes t)") (auto simp: create_taken create_free)
  from c show "rows t' = rows t @ [l]"
    by (cases "code \<in> set (shortCodes t)") (auto simp: create_taken create_free)
next
  assume u: "update pol now ownerId linkId url t = (Inr l, t')"
  then have l: "\<exists>l0. l = apply_set (url_set url now) l0"
    and t': "rows t' = update_rows (url_set url now) (\<lambda>r. link_id r = linkId) (rows t)"
    by (auto simp: update_def split: option.splits if_splits)
  from t' show "map link_id (rows t') = map link_id (rows t)" by simp
  from t' show "map createdAt (rows t') = map createdAt (rows t)" by simp
  from l show "updatedAt l = now" by auto
  fix r assume "r \<in> set (rows t')" "link_id r = linkId"
  with t' show "updatedAt r = now" by (simp add: updatedAt_update_rows)
next
  show "set (rows (snd (deleteLink conv auth_userId key t))) \<subseteq> set (rows t)"
    by (auto simp: deleteLink_def delete_links_def split: option.splits)
qed

text \<open>Alice creates \<open>promo1\<close> at time 10 and changes its target at time 20.\<close>

theorem id_createdAt_fixed_witness:
  "create 10 ''user_alice'' ''promo1'' ''https://example.com/page'' empty_links
     = (Inr promo_link, promo_table)
   \<and> link_id promo_link = id_seq empty_links \<and> createdAt promo_link = 10
   \<and> update ForbiddenDistinct 20 ''user_alice'' 1 ''https://example.com/new'' promo_table
       = (Inr (promo_link\<lparr>originalUrl := ''https://example.com/new'', updatedAt := 20\<rparr>),
          promo_table\<lparr>rows := [promo_link\<lparr>originalUrl := ''https://example.com/new'', updatedAt := 20\<rparr>]\<rparr>)
   \<and> updatedAt (promo_link\<lparr>originalUrl := ''https://example.com/new'', updatedAt := 20\<rparr>) = 20
   \<and> promo_link \<in> set (rows (apply_ops decimal_int4 [Create 10 ''user_alice'' ''promo1'' ''https://example.com/page''] empty_links))
   \<and> promo_link\<lparr>originalUrl := ''https://example.com/new'', updatedAt := 20\<rparr>
       \<in> set (rows (apply_ops decimal_int4 [UpdateUrl ForbiddenDistinct 20 ''user_alice'' 1 ''https://example.com/new'']
             (apply_ops decimal_int4 [Create 10 ''user_alice'' ''promo1'' ''https://example.com/page''] empty_links)))
   \<and> createdAt (promo_link\<lparr>originalUrl := ''https://example.com/new'', updatedAt := 20\<rparr>)
       = createdAt promo_link"
proof -
  let ?new = "promo_link\<lparr>originalUrl := ''https://example.com/new'', updatedAt := 20\<rparr>"
  let ?xs = "[Create 10 ''user_alice'' ''promo1'' ''https://example.com/page'']"
  let ?ys = "[UpdateUrl ForbiddenDistinct 20 ''user_alice'' 1 ''https://example.com/new'']"
  have u: "update ForbiddenDistinct 20 ''user_alice'' 1 ''https://example.com/new'' promo_table
             = (Inr ?new, promo_table\<lparr>rows := [?new]\<rparr>)"
    by (simp add: update_def authorize_def update_rows_def apply_set_def url_set_def
        promo_table_def promo_link_def)
  have a: "apply_ops decimal_int4 ?xs empty_links = promo_table"
    by (simp add: create_promo)
  have b: "apply_ops decimal_int4 ?ys (apply_ops decimal_int4 ?xs empty_links) = promo_table\<lparr>rows := [?new]\<rparr>"
    by (simp add: create_promo u)
  have before: "promo_link \<in> set (rows (apply_ops decimal_int4 ?xs empty_links))"
    unfolding a by (simp add: promo_table_def)
  have after: "?new \<in> set (rows (apply_ops decimal_int4 ?ys (apply_ops decimal_int4 ?xs empty_links)))"
    unfolding b by simp
  note made = id_createdAt_fixed
      [where conv = decimal_int4 and xs = ?xs and ys = ?ys and now = 10 and ownerId = "''user_alice''" and code = "''promo1''"
         and url = "''https://example.com/page''" and t = empty_links and l = promo_link
         and t' = promo_table]
  note changed = id_createdAt_fixed
      [where now = 20 and ownerId = "''user_alice''" and url = "''https://example.com/new''"
         and t = promo_table and l = ?new and t' = "promo_table\<lparr>rows := [?new]\<rparr>"
         and pol = ForbiddenDistinct and linkId = 1]
  from made before after have same: "createdAt ?new = createdAt promo_link"
    by (simp add: promo_link_def)
  from made create_promo have fresh: "link_id promo_link = id_seq empty_links \<and> createdAt promo_link = 10"
    by blast
  from changed u have touched: "updatedAt ?new = 20"
    by blast
  from create_promo u fresh touched before after same show ?thesis
    by blast
qed

section \<open>The Link Store acts through statements\<close>

text \<open>
  Each operation of the Link Store leaves the table that some statement leaves, so the
  tables reached by \<open>create\<close>, \<open>update\<close> and \<open>deleteLink\<close> are among those reached by statements.
\<close>

lemma delete_nothing: "delete_links (\<lambda>r. False) t = t"
  by (simp add: delete_links_def)

lemma apply_op_as_statement:
  assumes "distinct (shortCodes t)"
  shows "\<exists>st. apply_op conv x t = exec st t"
proof (cases x)
  case (Create now ownerId code url)
  have "snd (create now ownerId code url t) =
        exec (Insert now \<lparr>new_userId = ownerId, new_shortCode = code, new_originalUrl = url,
                           new_createdAt = None, new_updatedAt = now\<rparr>) t"
    by (simp add: create_def insert_link_def Let_def)
  with Create have "apply_op conv x t =
        exec (Insert now \<lparr>new_userId = ownerId, new_shortCode = code, new_originalUrl = url,
                           new_createdAt = None, new_updatedAt = now\<rparr>) t"
    by simp
  then show ?thesis by (rule exI)
next
  case (UpdateUrl pol now ownerId linkId url)
  show ?thesis
  proof (cases "\<exists>l. find (\<lambda>r. link_id r = linkId) (rows t) = Some l \<and> authorize ownerId l")
    case True
    have "distinct (map shortCode (update_rows (url_set url now) (\<lambda>r. link_id r = linkId) (rows t)))"
      using assms by (simp add: shortCodes_def)
    then have "snd (update pol now ownerId linkId url t) =
               exec (Update (url_set url now) (\<lambda>r. link_id r = linkId)) t"
      using True by (auto simp: update_def update_links_def Let_def)
    with UpdateUrl have "apply_op conv x t = exec (Update (url_set url now) (\<lambda>r. link_id r = linkId)) t"
      by simp
    then show ?thesis by (rule exI)
  next
    case False
    then have "snd (update pol now ownerId linkId url t) = exec (Delete (\<lambda>r. False)) t"
      by (auto simp: update_def delete_nothing split: option.splits)
    with UpdateUrl have "apply_op conv x t = exec (Delete (\<lambda>r. False)) t" by simp
    then show ?thesis by (rule exI)
  qed
next
  case (DeleteLink a key)
  show ?thesis
  proof (cases "truthy a")
    case True
    show ?thesis
    proof (cases "conv key")
      case None
      with True DeleteLink have "apply_op conv x t = exec (Delete (\<lambda>r. False)) t"
        by (simp add: deleteLink_def delete_nothing)
      then show ?thesis by (rule exI)
    next
      case (Some i)
      with True DeleteLink
      have "apply_op conv x t = exec (Delete (\<lambda>r. link_id r = i \<and> Some (userId r) = a)) t"
        by (simp add: deleteLink_def)
      then show ?thesis by (rule exI)
    qed
  next
    case False
    with DeleteLink have "apply_op conv x t = exec (Delete (\<lambda>r. False)) t"
      by (simp add: deleteLink_def delete_nothing)
    then show ?thesis by (rule exI)
  qed
qed

lemma apply_ops_as_statements:
  "distinct (shortCodes t) \<Longrightarrow> \<exists>sts. apply_ops conv xs t = exec_all sts t"
proof (induction xs arbitrary: t)
  case Nil
  have "apply_ops conv [] t = exec_all [] t" by simp
  then show ?case by (rule exI)
next
  case (Cons x xs)
  from apply_op_as_statement [OF Cons.prems, where x = x and conv = conv]
  obtain st where st: "apply_op conv x t = exec st t" by blast
  have "distinct (shortCodes (exec st t))" using Cons.prems by (rule exec_distinct)
  from Cons.IH [OF this] obtain sts where "apply_ops conv xs (exec st t) = exec_all sts (exec st t)" by blast
  with st have "apply_ops conv (x # xs) t = exec_all (st # sts) t" by simp
  then show ?case by (rule exI)
qed

end
